theory Spec2Isabelle
  imports Complex_Main "HOL-Library.Finite_Map" "HOL-Library.Log_Nat"
begin

section \<open>Values read from the uploaded file\<close>

text \<open>
  \<^verbatim>\<open>JSON.parse\<close> is a library function; the model starts from what it returns.  A parsed
  document is a \<open>json\<close> value.  A number is the exact value of the double that the parser
  produced, a rational (the infinities that an overflowing literal gives are left out; the
  parser never yields NaN).  An object is the list of its own properties, each key once.
\<close>

datatype json =
    JNull
  | JBool bool
  | JNum rat
  | JStr string
  | JArr "json list"
  | JObj "(string \<times> json) list"

text \<open>
  What the \<^verbatim>\<open>onload\<close> callback finds: \<open>NoText\<close> when \<^verbatim>\<open>e.target?.result\<close> is not a
  string, \<open>BadSyntax\<close> when \<^verbatim>\<open>JSON.parse\<close> throws, \<open>Parsed v\<close> when it returns \<open>v\<close>.
\<close>

datatype read_result = NoText | BadSyntax | Parsed json

text \<open>
  Everything that can be thrown inside the \<^verbatim>\<open>try\<close> block.  \<open>TypeError\<close> is what the
  engine throws when a property of \<^verbatim>\<open>null\<close> is read.
\<close>

datatype error =
    ReadError
  | SyntaxError
  | NotAnArray
  | InvalidStructure nat
  | TypeError

text \<open>
  \<^verbatim>\<open>q.name\<close> for one of the names \<^verbatim>\<open>question\<close>, \<^verbatim>\<open>choices\<close>, \<^verbatim>\<open>answer\<close>, which no
  prototype defines: \<open>None\<close> is \<^verbatim>\<open>undefined\<close>.
\<close>

fun member_of :: "json \<Rightarrow> string \<Rightarrow> error + json option" where
  "member_of JNull name = Inl TypeError"
| "member_of (JObj props) name = Inr (map_of props name)"
| "member_of q name = Inr None"

text \<open>\<^verbatim>\<open>!v\<close>\<close>

fun falsy :: "json option \<Rightarrow> bool" where
  "falsy None = True"
| "falsy (Some JNull) = True"
| "falsy (Some (JBool b)) = (\<not> b)"
| "falsy (Some (JNum r)) = (r = 0)"
| "falsy (Some (JStr s)) = (s = [])"
| "falsy (Some (JArr xs)) = False"
| "falsy (Some (JObj props)) = False"

text \<open>\<^verbatim>\<open>Array.isArray(v)\<close>\<close>

fun isArray :: "json option \<Rightarrow> bool" where
  "isArray (Some (JArr xs)) = True"
| "isArray v = False"

text \<open>\<^verbatim>\<open>typeof v === "number"\<close>\<close>

fun is_number :: "json option \<Rightarrow> bool" where
  "is_number (Some (JNum r)) = True"
| "is_number v = False"

section \<open>Validation of an upload\<close>

text \<open>
  The condition of the \<^verbatim>\<open>if\<close> inside \<^verbatim>\<open>jsonData.forEach\<close>:
  \<^verbatim>\<open>!q.question || !q.choices || !Array.isArray(q.choices) || typeof q.answer !== "number"\<close>.
  Its first operand reads a property of \<open>q\<close> and throws on \<^verbatim>\<open>null\<close>.
\<close>

definition invalid_structure :: "json \<Rightarrow> error + bool" where
  "invalid_structure q =
     (case member_of q ''question'' of
        Inl e \<Rightarrow> Inl e
      | Inr qu \<Rightarrow>
          if falsy qu then Inr True
          else (case member_of q ''choices'' of
                  Inl e \<Rightarrow> Inl e
                | Inr ch \<Rightarrow>
                    if falsy ch then Inr True
                    else if \<not> isArray ch then Inr True
                    else (case member_of q ''answer'' of
                            Inl e \<Rightarrow> Inl e
                          | Inr an \<Rightarrow> Inr (\<not> is_number an))))"

text \<open>\<^verbatim>\<open>jsonData.forEach((q, index) => ...)\<close>, from \<open>index\<close> on.\<close>

fun forEach_check :: "nat \<Rightarrow> json list \<Rightarrow> error + unit" where
  "forEach_check index [] = Inr ()"
| "forEach_check index (q # qs) =
     (case invalid_structure q of
        Inl e \<Rightarrow> Inl e
      | Inr True \<Rightarrow> Inl (InvalidStructure index)
      | Inr False \<Rightarrow> forEach_check (Suc index) qs)"

text \<open>The body of the \<^verbatim>\<open>try\<close> block up to the first state setter.\<close>

fun validate :: "read_result \<Rightarrow> error + json list" where
  "validate NoText = Inl ReadError"
| "validate BadSyntax = Inl SyntaxError"
| "validate (Parsed (JArr jsonData)) =
     (case forEach_check 0 jsonData of
        Inl e \<Rightarrow> Inl e
      | Inr u \<Rightarrow> Inr jsonData)"
| "validate (Parsed v) = Inl NotAnArray"

section \<open>Session state\<close>

text \<open>
  The six \<^verbatim>\<open>useState\<close> cells of \<^verbatim>\<open>QuizExamApp\<close>.  \<open>userAnswers\<close> is an object used as a
  dictionary from question index to chosen index: a finite map.
\<close>

record state =
  questions :: "json list"
  currentQuestion :: int
  userAnswers :: "(int, int) fmap"
  showResults :: bool
  examStarted :: bool
  uploadError :: string

definition initial :: state where
  "initial = \<lparr>questions = [], currentQuestion = 0, userAnswers = fmempty,
              showResults = False, examStarted = False, uploadError = []\<rparr>"

text \<open>
  The screen that the component renders, in the order of its \<^verbatim>\<open>if\<close> statements:
  upload screen, results screen, pre-exam screen, exam screen.
\<close>

datatype phase = Empty | Results | Ready | InProgress

definition phase_of :: "state \<Rightarrow> phase" where
  "phase_of s =
     (if length (questions s) = 0 then Empty
      else if showResults s then Results
      else if \<not> examStarted s then Ready
      else InProgress)"

text \<open>The state setters after a successful validation.\<close>

definition load :: "json list \<Rightarrow> state \<Rightarrow> state" where
  "load jsonData s =
     s\<lparr>questions := jsonData, userAnswers := fmempty, currentQuestion := 0,
       showResults := False, examStarted := False, uploadError := []\<rparr>"

text \<open>\<^verbatim>\<open>reader.onload\<close>: the \<^verbatim>\<open>try\<close> block and its \<^verbatim>\<open>catch\<close>.\<close>

definition onload :: "read_result \<Rightarrow> state \<Rightarrow> state" where
  "onload r s =
     (case validate r of
        Inr jsonData \<Rightarrow> load jsonData s
      | Inl e \<Rightarrow> s\<lparr>uploadError := ''Invalid JSON format. Please check your file structure.''\<rparr>)"

text \<open>\<open>None\<close>: no file was chosen, and the handler returns at once.\<close>

definition handleFileUpload :: "read_result option \<Rightarrow> state \<Rightarrow> state" where
  "handleFileUpload file s = (case file of None \<Rightarrow> s | Some r \<Rightarrow> onload r s)"

definition handleAnswerSelect :: "int \<Rightarrow> state \<Rightarrow> state" where
  "handleAnswerSelect answerIndex s =
     s\<lparr>userAnswers := fmupd (currentQuestion s) answerIndex (userAnswers s)\<rparr>"

definition nextQuestion :: "state \<Rightarrow> state" where
  "nextQuestion s =
     (if currentQuestion s < int (length (questions s)) - 1
      then s\<lparr>currentQuestion := currentQuestion s + 1\<rparr> else s)"

definition prevQuestion :: "state \<Rightarrow> state" where
  "prevQuestion s =
     (if currentQuestion s > 0
      then s\<lparr>currentQuestion := currentQuestion s - 1\<rparr> else s)"

definition startExam :: "state \<Rightarrow> state" where
  "startExam s = s\<lparr>examStarted := True\<rparr>"

definition finishExam :: "state \<Rightarrow> state" where
  "finishExam s = s\<lparr>showResults := True\<rparr>"

definition restartExam :: "state \<Rightarrow> state" where
  "restartExam s =
     s\<lparr>userAnswers := fmempty, currentQuestion := 0, showResults := False,
       examStarted := False\<rparr>"

text \<open>The handler of the button \<^verbatim>\<open>Upload New Quiz\<close>.\<close>

definition uploadNewQuiz :: "state \<Rightarrow> state" where
  "uploadNewQuiz s =
     s\<lparr>questions := [], userAnswers := fmempty, currentQuestion := 0,
       showResults := False, examStarted := False\<rparr>"

section \<open>Numbers\<close>

text \<open>
  A number of the program is an IEEE double.  The finite doubles are rationals, and
  \<open>to_double x\<close> is the double nearest to the rational \<open>x\<close>, a tie going to the even
  mantissa, for \<open>x\<close> in the normal range (no overflow, no subnormal result): the quotient
  and the product of the score are far inside it.  \<open>ilog2 x\<close> is the binary exponent of a
  positive \<open>x\<close>.
\<close>

definition round_half_even :: "rat \<Rightarrow> int" where
  "round_half_even m =
     (let f = \<lfloor>m\<rfloor>; d = m - of_int f
      in if d < 1/2 then f else if d > 1/2 then f + 1 else if even f then f else f + 1)"

definition ilog2 :: "rat \<Rightarrow> int" where
  "ilog2 x =
     (let (p, q) = quotient_of x;
          d = bitlen p - bitlen q
      in if 2 powi d \<le> x then d else d - 1)"

definition to_double :: "rat \<Rightarrow> rat" where
  "to_double x =
     (if x = 0 then 0
      else let ulp = 2 powi (ilog2 \<bar>x\<bar> - 52)
           in sgn x * of_int (round_half_even (\<bar>x\<bar> / ulp)) * ulp)"

text \<open>\<^verbatim>\<open>a / b\<close> and \<^verbatim>\<open>a * b\<close> on doubles, for \<open>b \<noteq> 0\<close>.\<close>

definition fdiv :: "rat \<Rightarrow> rat \<Rightarrow> rat" where
  "fdiv a b = to_double (a / b)"

definition fmul :: "rat \<Rightarrow> rat \<Rightarrow> rat" where
  "fmul a b = to_double (a * b)"

text \<open>The decimal numeral of a natural number, as \<^verbatim>\<open>String(n)\<close> writes it.\<close>

definition digit_char :: "nat \<Rightarrow> char" where
  "digit_char d = ''0123456789'' ! d"

function digits :: "nat \<Rightarrow> string" where
  "digits n =
     (if n < 10 then [digit_char n]
      else digits (n div 10) @ [digit_char (n mod 10)])"
  by pat_completeness auto
termination
  by (relation "measure (\<lambda>n. n)") auto

declare digits.simps [simp del]

text \<open>
  \<^verbatim>\<open>x.toFixed(1)\<close> for a double \<open>0 \<le> x < 10 ^ 21\<close>: with \<open>n\<close> the integer for which
  \<open>n / 10 - x\<close> is closest to zero (the larger one of two), the numeral of \<open>n\<close> with a point
  before its last digit, and a leading zero when \<open>n < 10\<close>.
\<close>

definition toFixed1 :: "rat \<Rightarrow> string" where
  "toFixed1 x =
     (let n = nat \<lfloor>10 * x + 1/2\<rfloor>
      in digits (n div 10) @ ''.'' @ digits (n mod 10))"

section \<open>Scoring\<close>

text \<open>
  \<^verbatim>\<open>userAnswers[index] === question.answer\<close>: the left side is \<^verbatim>\<open>undefined\<close> or a chosen
  index, the right side whatever the question holds.
\<close>

fun strict_eq :: "int option \<Rightarrow> json option \<Rightarrow> bool" where
  "strict_eq None None = True"
| "strict_eq (Some v) (Some (JNum r)) = (of_int v = r)"
| "strict_eq a b = False"

text \<open>\<^verbatim>\<open>questions.reduce((acc, question, index) => ..., 0)\<close>, from \<open>index\<close> on.\<close>

fun reduce_correct :: "(int, int) fmap \<Rightarrow> nat \<Rightarrow> nat \<Rightarrow> json list \<Rightarrow> error + nat" where
  "reduce_correct ua acc index [] = Inr acc"
| "reduce_correct ua acc index (question # rest) =
     (case member_of question ''answer'' of
        Inl e \<Rightarrow> Inl e
      | Inr a \<Rightarrow>
          reduce_correct ua (acc + (if strict_eq (fmlookup ua (int index)) a then 1 else 0))
            (Suc index) rest)"

text \<open>The score is a string when \<^verbatim>\<open>toFixed\<close> made it and the number 0 otherwise.\<close>

datatype score = ScoreText string | ScoreNumber rat

record results =
  totalQuestions :: nat
  answeredQuestions :: nat
  correctAnswers :: nat
  score :: score

definition calculateResults :: "state \<Rightarrow> error + results" where
  "calculateResults s =
     (let total = length (questions s);
          answered = fcard (fmdom (userAnswers s))
      in case reduce_correct (userAnswers s) 0 0 (questions s) of
           Inl e \<Rightarrow> Inl e
         | Inr correct \<Rightarrow>
             Inr \<lparr>totalQuestions = total,
                  answeredQuestions = answered,
                  correctAnswers = correct,
                  score =
                    (if total > 0
                     then ScoreText (toFixed1 (fmul (fdiv (of_nat correct) (of_nat total)) 100))
                     else ScoreNumber 0)\<rparr>)"

text \<open>
  The number in the tile \<^verbatim>\<open>Incorrect\<close> of the results screen:
  \<^verbatim>\<open>results.totalQuestions - results.correctAnswers\<close>.
\<close>

definition incorrect :: "results \<Rightarrow> int" where
  "incorrect r = int (totalQuestions r) - int (correctAnswers r)"

text \<open>
  \<^verbatim>\<open>getScoreColor\<close>.  \<^verbatim>\<open>parseFloat\<close> is a library function and a parameter here; it gives
  \<open>None\<close> for NaN, and every comparison with NaN is false.
\<close>

fun at_least :: "rat option \<Rightarrow> rat \<Rightarrow> bool" where
  "at_least None b = False"
| "at_least (Some a) b = (a \<ge> b)"

definition getScoreColor :: "(string \<Rightarrow> rat option) \<Rightarrow> score \<Rightarrow> string" where
  "getScoreColor parseFloat sc =
     (let numScore = (case sc of ScoreText t \<Rightarrow> parseFloat t | ScoreNumber n \<Rightarrow> Some n)
      in if at_least numScore 80 then ''text-green-600''
         else if at_least numScore 60 then ''text-yellow-600''
         else ''text-red-600'')"

section \<open>Question sets, events and example data\<close>

text \<open>
  A question of a question set is a value that the check of the upload lets through; a
  question set is a list of them.
\<close>

definition is_question :: "json \<Rightarrow> bool" where
  "is_question q = (invalid_structure q = Inr False)"

definition question_set :: "json list \<Rightarrow> bool" where
  "question_set qs = list_all is_question qs"

text \<open>
  Question \<open>j\<close> of \<open>qs\<close> holds as its answer the index chosen at key \<open>i + j\<close> of the
  answer map.
\<close>

definition correct_at :: "(int, int) fmap \<Rightarrow> json list \<Rightarrow> nat \<Rightarrow> nat \<Rightarrow> bool" where
  "correct_at ua qs i j \<longleftrightarrow>
     j < length qs \<and>
     (\<exists>v. fmlookup ua (int (i + j)) = Some v \<and>
          member_of (qs ! j) ''answer'' = Inr (Some (JNum (of_int v))))"

text \<open>
  What can happen to a session.  A file read may complete on any screen.  The buttons
  \<^verbatim>\<open>Start Exam\<close>, the choices, \<^verbatim>\<open>Previous\<close>, \<^verbatim>\<open>Next\<close> and \<^verbatim>\<open>Finish Exam\<close> exist only on the
  screen that renders them.  \<^verbatim>\<open>Retake Exam\<close> and \<^verbatim>\<open>Upload New Quiz\<close> are rendered on the
  results screen; they are allowed everywhere here, and so are \<^verbatim>\<open>Next\<close> on the last
  question, \<^verbatim>\<open>Finish Exam\<close> before it and a choice of any index, which only adds sessions.
\<close>

datatype event =
    FileRead read_result
  | Start
  | Select int
  | Next
  | Previous
  | Finish
  | Restart
  | Reset

fun enabled :: "state \<Rightarrow> event \<Rightarrow> bool" where
  "enabled s (FileRead r) = True"
| "enabled s Start = (phase_of s = Ready)"
| "enabled s (Select answerIndex) = (phase_of s = InProgress)"
| "enabled s Next = (phase_of s = InProgress)"
| "enabled s Previous = (phase_of s = InProgress)"
| "enabled s Finish = (phase_of s = InProgress)"
| "enabled s Restart = True"
| "enabled s Reset = True"

fun fire :: "event \<Rightarrow> state \<Rightarrow> state" where
  "fire (FileRead r) s = onload r s"
| "fire Start s = startExam s"
| "fire (Select answerIndex) s = handleAnswerSelect answerIndex s"
| "fire Next s = nextQuestion s"
| "fire Previous s = prevQuestion s"
| "fire Finish s = finishExam s"
| "fire Restart s = restartExam s"
| "fire Reset s = uploadNewQuiz s"

inductive reachable :: "state \<Rightarrow> bool" where
  reachable_initial: "reachable initial"
| reachable_fire: "reachable s \<Longrightarrow> enabled s e \<Longrightarrow> reachable (fire e s)"

text \<open>The questions of the examples.\<close>

definition one_plus_one :: json where
  "one_plus_one =
     JObj [(''question'', JStr ''1+1?''),
           (''choices'', JArr [JStr ''1'', JStr ''2'', JStr ''3'']),
           (''answer'', JNum 1)]"

definition two_plus_two :: json where
  "two_plus_two =
     JObj [(''question'', JStr ''2+2?''),
           (''choices'', JArr [JStr ''3'', JStr ''4'']),
           (''answer'', JNum 1)]"

definition three_plus_three :: json where
  "three_plus_three =
     JObj [(''question'', JStr ''3+3?''),
           (''choices'', JArr [JStr ''6'', JStr ''9'']),
           (''answer'', JNum 0),
           (''reason'', JStr ''3+3 is 6'')]"

text \<open>A session in progress on the second of three questions, the first one answered.\<close>

definition in_progress :: state where
  "in_progress =
     \<lparr>questions = [one_plus_one, two_plus_two, three_plus_three], currentQuestion = 1,
      userAnswers = fmupd 0 1 fmempty, showResults = False, examStarted = True,
      uploadError = []\<rparr>"

text \<open>
  What every reachable session satisfies: its questions are a question set, the keys of
  the answer map are indices of questions, and the position is an index of a question, or 0
  when there is none.
\<close>

definition session_inv :: "state \<Rightarrow> bool" where
  "session_inv s \<longleftrightarrow>
     question_set (questions s)
     \<and> (\<forall>k. k |\<in>| fmdom (userAnswers s) \<longrightarrow> 0 \<le> k \<and> k < int (length (questions s)))
     \<and> 0 \<le> currentQuestion s
     \<and> (currentQuestion s < int (length (questions s)) \<or> currentQuestion s = 0)"

text \<open>
  A session: three questions are uploaded, the exam is started, the first question is
  answered with 1, the second with 0, and the exam is finished there.
\<close>

definition example_session :: state where
  "example_session =
     fire Finish (fire (Select 0) (fire Next (fire (Select 1) (fire Start
       (fire (FileRead (Parsed (JArr [one_plus_one, two_plus_two, three_plus_three])))
          initial)))))"

text \<open>
  The two questions of the scoring example on the results screen, the first answered with
  1 and the second with 0.
\<close>

definition two_answered :: state where
  "two_answered =
     \<lparr>questions = [one_plus_one, two_plus_two], currentQuestion = 1,
      userAnswers = fmupd 1 0 (fmupd 0 1 fmempty), showResults = True, examStarted = True,
      uploadError = []\<rparr>"

section \<open>Validation: properties\<close>

lemma is_question_answer:
  assumes "is_question q"
  shows "\<exists>r. member_of q ''answer'' = Inr (Some (JNum r))"
proof -
  from assms obtain an where m: "member_of q ''answer'' = Inr an" and n: "is_number an"
    by (auto simp: is_question_def invalid_structure_def split: sum.splits if_splits)
  from n obtain r where "an = Some (JNum r)"
    by (cases an rule: is_number.cases) auto
  with m show ?thesis by simp
qed

lemma forEach_check_ok:
  "forEach_check i qs = Inr () \<longleftrightarrow> list_all is_question qs"
  by (induction qs arbitrary: i) (auto simp: is_question_def split: sum.splits bool.splits)

lemma forEach_check_first_failure:
  assumes "k < length qs" and "\<forall>j<k. is_question (qs ! j)"
  shows "forEach_check i qs =
    (case invalid_structure (qs ! k) of
       Inl e \<Rightarrow> Inl e
     | Inr True \<Rightarrow> Inl (InvalidStructure (i + k))
     | Inr False \<Rightarrow> forEach_check (i + Suc k) (drop (Suc k) qs))"
  using assms
proof (induction qs arbitrary: i k)
  case Nil
  then show ?case by simp
next
  case (Cons q qs)
  show ?case
  proof (cases k)
    case 0
    then show ?thesis by (simp split: sum.splits bool.splits)
  next
    case (Suc k')
    from Cons.prems Suc have q: "invalid_structure q = Inr False"
      by (auto simp: is_question_def)
    from Cons.prems Suc have k': "k' < length qs" and pre: "\<forall>j<k'. is_question (qs ! j)"
      by auto
    show ?thesis
      unfolding Suc using Cons.IH [OF k' pre, of "Suc i"] q
      by (simp split: sum.splits bool.splits)
  qed
qed

lemma validate_question_set:
  "validate r = Inr qs \<Longrightarrow> question_set qs"
  by (cases r rule: validate.cases)
     (auto simp: question_set_def split: sum.splits dest: forEach_check_ok [THEN iffD1])

lemma example_questions:
  "is_question one_plus_one" "is_question two_plus_two" "is_question three_plus_three"
  by (simp_all add: is_question_def invalid_structure_def one_plus_one_def two_plus_two_def
      three_plus_three_def)

section \<open>Scoring: the count of correct answers\<close>

lemma correct_at_Suc: "correct_at ua (q # qs) i (Suc j) = correct_at ua qs (Suc i) j"
  by (simp add: correct_at_def)

lemma correct_at_split:
  "{j. correct_at ua (q # qs) i j} =
     {j. j = 0 \<and> correct_at ua (q # qs) i 0} \<union> Suc ` {j. correct_at ua qs (Suc i) j}"
proof (rule set_eqI)
  fix j
  show "j \<in> {j. correct_at ua (q # qs) i j} \<longleftrightarrow>
        j \<in> {j. j = 0 \<and> correct_at ua (q # qs) i 0} \<union> Suc ` {j. correct_at ua qs (Suc i) j}"
    by (cases j) (simp_all add: correct_at_Suc image_iff)
qed

lemma finite_correct_at: "finite {j. correct_at ua qs i j}"
proof (rule finite_subset)
  show "{j. correct_at ua qs i j} \<subseteq> {..<length qs}"
    by (auto simp: correct_at_def)
qed simp

lemma card_correct_at_Cons:
  "card {j. correct_at ua (q # qs) i j} =
     (if correct_at ua (q # qs) i 0 then 1 else 0) + card {j. correct_at ua qs (Suc i) j}"
proof -
  define A where "A = {j::nat. j = 0 \<and> correct_at ua (q # qs) i 0}"
  define B where "B = {j. correct_at ua qs (Suc i) j}"
  have fin: "finite A" "finite (Suc ` B)"
    by (simp_all add: A_def B_def finite_correct_at)
  have disj: "A \<inter> Suc ` B = {}"
    by (auto simp: A_def)
  have "card {j. correct_at ua (q # qs) i j} = card (A \<union> Suc ` B)"
    by (simp only: correct_at_split [of ua q qs i] A_def B_def)
  also have "\<dots> = card A + card (Suc ` B)"
    using fin disj by (rule card_Un_disjoint)
  also have "card (Suc ` B) = card B"
    by (simp add: card_image)
  also have "card A = (if correct_at ua (q # qs) i 0 then 1 else 0)"
    by (simp add: A_def)
  finally show ?thesis by (simp add: B_def)
qed

lemma reduce_correct_count:
  assumes "list_all is_question qs"
  shows "reduce_correct ua acc i qs = Inr (acc + card {j. correct_at ua qs i j})"
  using assms
proof (induction qs arbitrary: acc i)
  case Nil
  then show ?case by (simp add: correct_at_def)
next
  case (Cons q qs)
  from Cons.prems have q: "is_question q" and qs: "list_all is_question qs" by simp_all
  from is_question_answer [OF q] obtain r where r: "member_of q ''answer'' = Inr (Some (JNum r))" ..
  have hd: "strict_eq (fmlookup ua (int i)) (Some (JNum r)) = correct_at ua (q # qs) i 0"
    using r by (cases "fmlookup ua (int i)") (auto simp: correct_at_def)
  show ?case
    using Cons.IH [OF qs, of "acc + (if strict_eq (fmlookup ua (int i)) (Some (JNum r)) then 1 else 0)" "Suc i"]
    by (simp add: r card_correct_at_Cons hd)
qed

lemma answered_keys: "fcard (fmdom m) = card {k. fmlookup m k \<noteq> None}"
proof -
  have "fset (fmdom m) = {k. fmlookup m k \<noteq> None}"
    by (auto simp: fmlookup_dom_iff)
  then show ?thesis by (simp add: fcard.rep_eq)
qed

lemma correct_le_total: "card {j. correct_at ua qs i j} \<le> length qs"
proof -
  have "card {j. correct_at ua qs i j} \<le> card {..<length qs}"
    by (rule card_mono) (auto simp: correct_at_def)
  then show ?thesis by simp
qed

lemma card_not_correct:
  "card {j. j < length qs \<and> \<not> correct_at ua qs i j} = length qs - card {j. correct_at ua qs i j}"
proof -
  have eq: "{j. j < length qs \<and> \<not> correct_at ua qs i j} = {..<length qs} - {j. correct_at ua qs i j}"
    by auto
  have sub: "{j. correct_at ua qs i j} \<subseteq> {..<length qs}"
    by (auto simp: correct_at_def)
  show ?thesis
    unfolding eq using sub by (simp add: card_Diff_subset finite_correct_at)
qed

lemma calculateResults_question_set:
  assumes "question_set (questions s)"
  shows "calculateResults s =
    Inr \<lparr>totalQuestions = length (questions s),
         answeredQuestions = fcard (fmdom (userAnswers s)),
         correctAnswers = card {j. correct_at (userAnswers s) (questions s) 0 j},
         score =
           (if length (questions s) > 0
            then ScoreText (toFixed1 (fmul (fdiv (of_nat (card {j. correct_at (userAnswers s) (questions s) 0 j}))
                    (of_nat (length (questions s)))) 100))
            else ScoreNumber 0)\<rparr>"
  using assms by (simp add: calculateResults_def question_set_def reduce_correct_count Let_def)

text \<open>
  C1.  For a question set and any answer map, \<^verbatim>\<open>calculateResults\<close> returns: as total the
  number of questions; as answered the number of keys of the answer map; as correct the
  number of indices \<open>i\<close> whose key is in the map with the value that question \<open>i\<close> holds
  as its answer.  The number shown as incorrect is total minus correct, which is the
  number of questions not answered correctly, the unanswered ones included.  A set of
  three questions of which only question 0 is answered, and correctly, gives correct 1,
  answered 1, incorrect 2, total 3.
\<close>

theorem calculateResults_counts:
  assumes "question_set (questions s)"
  shows "\<exists>r. calculateResults s = Inr r
    \<and> totalQuestions r = length (questions s)
    \<and> answeredQuestions r = card {k. fmlookup (userAnswers s) k \<noteq> None}
    \<and> correctAnswers r =
        card {i. i < length (questions s) \<and>
               (\<exists>v. fmlookup (userAnswers s) (int i) = Some v \<and>
                    member_of (questions s ! i) ''answer'' = Inr (Some (JNum (of_int v))))}
    \<and> incorrect r = int (totalQuestions r) - int (correctAnswers r)
    \<and> incorrect r =
        int (card {i. i < length (questions s) \<and>
               \<not> (\<exists>v. fmlookup (userAnswers s) (int i) = Some v \<and>
                    member_of (questions s ! i) ''answer'' = Inr (Some (JNum (of_int v))))})
    \<and> (length (questions s) = 3 \<and> fmdom (userAnswers s) = {|0|} \<and>
        (\<exists>v. fmlookup (userAnswers s) 0 = Some v \<and>
             member_of (questions s ! 0) ''answer'' = Inr (Some (JNum (of_int v))))
       \<longrightarrow> correctAnswers r = 1 \<and> answeredQuestions r = 1 \<and> incorrect r = 2 \<and>
           totalQuestions r = 3)"
proof -
  let ?ua = "userAnswers s" and ?qs = "questions s"
  let ?C = "{i. i < length ?qs \<and>
               (\<exists>v. fmlookup ?ua (int i) = Some v \<and>
                    member_of (?qs ! i) ''answer'' = Inr (Some (JNum (of_int v))))}"
  have C: "{j. correct_at ?ua ?qs 0 j} = ?C"
    by (simp add: correct_at_def)
  have N: "{j. j < length ?qs \<and> \<not> correct_at ?ua ?qs 0 j} =
     {i. i < length ?qs \<and>
               \<not> (\<exists>v. fmlookup ?ua (int i) = Some v \<and>
                    member_of (?qs ! i) ''answer'' = Inr (Some (JNum (of_int v))))}"
    by (auto simp: correct_at_def)
  define r where "r = \<lparr>totalQuestions = length ?qs,
         answeredQuestions = fcard (fmdom ?ua),
         correctAnswers = card {j. correct_at ?ua ?qs 0 j},
         score =
           (if length ?qs > 0
            then ScoreText (toFixed1 (fmul (fdiv (of_nat (card {j. correct_at ?ua ?qs 0 j}))
                    (of_nat (length ?qs))) 100))
            else ScoreNumber 0)\<rparr>"
  have res: "calculateResults s = Inr r"
    unfolding r_def by (rule calculateResults_question_set [OF assms])
  have total: "totalQuestions r = length ?qs" by (simp add: r_def)
  have answered: "answeredQuestions r = card {k. fmlookup ?ua k \<noteq> None}"
    by (simp add: r_def answered_keys)
  have correct: "correctAnswers r = card ?C"
    by (simp add: r_def C)
  have inc: "incorrect r = int (totalQuestions r) - int (correctAnswers r)"
    by (simp add: incorrect_def)
  have le: "correctAnswers r \<le> totalQuestions r"
    by (simp add: r_def correct_le_total)
  have inc': "incorrect r = int (card {j. j < length ?qs \<and> \<not> correct_at ?ua ?qs 0 j})"
    using le by (simp add: incorrect_def card_not_correct r_def)
  have three: "correctAnswers r = 1 \<and> answeredQuestions r = 1 \<and> incorrect r = 2 \<and>
           totalQuestions r = 3"
    if len: "length ?qs = 3" and dom: "fmdom ?ua = {|0|}"
      and zero: "\<exists>v. fmlookup ?ua 0 = Some v \<and>
             member_of (?qs ! 0) ''answer'' = Inr (Some (JNum (of_int v)))"
  proof -
    have none: "fmlookup ?ua k = None" if "k \<noteq> 0" for k
      using dom that by (metis fmdom_notD fsingleton_iff)
    have "i = 0" if "fmlookup ?ua (int i) = Some v" for i v
      using none [of "int i"] that by (cases "int i = 0") simp_all
    then have "?C = {0}"
      using len zero by auto
    then have c1: "correctAnswers r = 1" by (simp add: correct)
    have a1: "answeredQuestions r = 1" by (simp add: r_def dom fcard_finsert_if)
    show ?thesis using c1 a1 len by (simp add: incorrect_def total)
  qed
  show ?thesis
    apply (rule exI [of _ r])
    using res total answered correct inc inc' three unfolding N by blast
qed


text \<open>The three example questions, the first one answered with its own answer.\<close>

theorem calculateResults_counts_witness:
  "question_set (questions in_progress) \<and>
   (\<exists>r. calculateResults in_progress = Inr r \<and> correctAnswers r = 1 \<and>
        answeredQuestions r = 1 \<and> incorrect r = 2 \<and> totalQuestions r = 3)"
proof -
  have qs: "question_set (questions in_progress)"
    by (simp add: in_progress_def question_set_def example_questions)
  have prem: "length (questions in_progress) = 3 \<and> fmdom (userAnswers in_progress) = {|0|} \<and>
        (\<exists>v. fmlookup (userAnswers in_progress) 0 = Some v \<and>
             member_of (questions in_progress ! 0) ''answer'' = Inr (Some (JNum (of_int v))))"
    by (simp add: in_progress_def one_plus_one_def)
  from calculateResults_counts [OF qs] prem qs show ?thesis
    by blast
qed

section \<open>Answering and moving\<close>

text \<open>
  C7.  \<^verbatim>\<open>handleAnswerSelect\<close> with any integer, in range of the choices or not, stores it in
  the answer map at the current position, over whatever was there; every other key of the
  map, the questions, the position, the screen and the other cells stay as they were.
\<close>

theorem handleAnswerSelect_frame:
  "fmlookup (userAnswers (handleAnswerSelect choiceIndex s)) (currentQuestion s) = Some choiceIndex
   \<and> (\<forall>k. k \<noteq> currentQuestion s \<longrightarrow>
         fmlookup (userAnswers (handleAnswerSelect choiceIndex s)) k = fmlookup (userAnswers s) k)
   \<and> questions (handleAnswerSelect choiceIndex s) = questions s
   \<and> currentQuestion (handleAnswerSelect choiceIndex s) = currentQuestion s
   \<and> phase_of (handleAnswerSelect choiceIndex s) = phase_of s
   \<and> showResults (handleAnswerSelect choiceIndex s) = showResults s
   \<and> examStarted (handleAnswerSelect choiceIndex s) = examStarted s
   \<and> uploadError (handleAnswerSelect choiceIndex s) = uploadError s"
  by (simp add: handleAnswerSelect_def phase_of_def)

text \<open>
  In the session in progress: position 1 gets the index -2, key 0 keeps its answer; one
  step back, the answer at key 0 is replaced.
\<close>

theorem handleAnswerSelect_frame_witness:
  "phase_of in_progress = InProgress
   \<and> fmlookup (userAnswers in_progress) 0 = Some 1
   \<and> fmlookup (userAnswers (handleAnswerSelect 7 (prevQuestion in_progress))) 0 = Some 7
   \<and> fmlookup (userAnswers (handleAnswerSelect (- 2) in_progress)) 1 = Some (- 2)
   \<and> fmlookup (userAnswers (handleAnswerSelect (- 2) in_progress)) 0 = Some 1
   \<and> phase_of (handleAnswerSelect (- 2) in_progress) = InProgress"
proof -
  have p: "phase_of in_progress = InProgress" "currentQuestion in_progress = 1"
    "currentQuestion (prevQuestion in_progress) = 0"
    "fmlookup (userAnswers in_progress) 0 = Some 1"
    by (simp_all add: in_progress_def phase_of_def prevQuestion_def)
  from handleAnswerSelect_frame [of "- 2" in_progress]
    handleAnswerSelect_frame [of 7 "prevQuestion in_progress"] p
  show ?thesis by simp
qed

text \<open>
  C8.  \<^verbatim>\<open>nextQuestion\<close> adds one to the position when it is below the last index and
  changes nothing otherwise; \<^verbatim>\<open>prevQuestion\<close> subtracts one when the position is above 0
  and changes nothing otherwise; a position inside \<open>[0, N - 1]\<close> stays inside.
\<close>

theorem navigation_bounds:
  "(currentQuestion s < int (length (questions s)) - 1 \<longrightarrow>
      nextQuestion s = s\<lparr>currentQuestion := currentQuestion s + 1\<rparr>)
   \<and> (\<not> currentQuestion s < int (length (questions s)) - 1 \<longrightarrow> nextQuestion s = s)
   \<and> (currentQuestion s > 0 \<longrightarrow>
      prevQuestion s = s\<lparr>currentQuestion := currentQuestion s - 1\<rparr>)
   \<and> (\<not> currentQuestion s > 0 \<longrightarrow> prevQuestion s = s)
   \<and> (0 \<le> currentQuestion s \<and> currentQuestion s \<le> int (length (questions s)) - 1 \<longrightarrow>
        0 \<le> currentQuestion (nextQuestion s)
        \<and> currentQuestion (nextQuestion s) \<le> int (length (questions s)) - 1
        \<and> 0 \<le> currentQuestion (prevQuestion s)
        \<and> currentQuestion (prevQuestion s) \<le> int (length (questions s)) - 1)"
  by (auto simp: nextQuestion_def prevQuestion_def)

text \<open>From the second of three questions: forward once and no further, back once and no further.\<close>

theorem navigation_bounds_witness:
  "phase_of in_progress = InProgress \<and> length (questions in_progress) = 3
   \<and> currentQuestion in_progress = 1
   \<and> currentQuestion (nextQuestion in_progress) = 2
   \<and> nextQuestion (nextQuestion in_progress) = nextQuestion in_progress
   \<and> currentQuestion (prevQuestion in_progress) = 0
   \<and> prevQuestion (prevQuestion in_progress) = prevQuestion in_progress"
proof -
  have p: "phase_of in_progress = InProgress" "length (questions in_progress) = 3"
    "currentQuestion in_progress = 1"
    by (simp_all add: in_progress_def phase_of_def)
  have n: "currentQuestion (nextQuestion in_progress) = 2"
    using navigation_bounds [of in_progress] p by simp
  have q: "questions (nextQuestion in_progress) = questions in_progress"
    "questions (prevQuestion in_progress) = questions in_progress"
    using navigation_bounds [of in_progress] p by simp_all
  have m: "currentQuestion (prevQuestion in_progress) = 0"
    using navigation_bounds [of in_progress] p by simp
  have nn: "nextQuestion (nextQuestion in_progress) = nextQuestion in_progress"
    using navigation_bounds [of "nextQuestion in_progress"] n q p by simp
  have mm: "prevQuestion (prevQuestion in_progress) = prevQuestion in_progress"
    using navigation_bounds [of "prevQuestion in_progress"] m by simp
  from p n nn m mm show ?thesis by simp
qed


section \<open>Uploads\<close>

lemma invalid_structure_cases:
  "invalid_structure JNull = Inl TypeError"
  "invalid_structure (JObj props) =
     Inr (falsy (map_of props ''question'') \<or> falsy (map_of props ''choices'')
          \<or> \<not> isArray (map_of props ''choices'') \<or> \<not> is_number (map_of props ''answer''))"
  "invalid_structure (JBool b) = Inr True"
  "invalid_structure (JNum n) = Inr True"
  "invalid_structure (JStr t) = Inr True"
  "invalid_structure (JArr xs) = Inr True"
  by (simp_all add: invalid_structure_def)

text \<open>
  C2.  The check of the elements goes through the array in order and stops at the first
  element it refuses.  For an element that is \<^verbatim>\<open>null\<close> the stop is not the error that names
  the index: reading \<^verbatim>\<open>q.question\<close> throws a \<^verbatim>\<open>TypeError\<close> first.  Here the first element
  is a question and the second is \<^verbatim>\<open>null\<close>.
\<close>

theorem validate_null_element:
  "is_question one_plus_one
   \<and> invalid_structure JNull = Inl TypeError
   \<and> validate (Parsed (JArr [one_plus_one, JNull])) = Inl TypeError
   \<and> validate (Parsed (JArr [one_plus_one, JNull])) \<noteq> Inl (InvalidStructure 1)"
  using example_questions by (simp add: is_question_def invalid_structure_def)

text \<open>
  For every other element that the check refuses, the error names its index, and nothing
  of the upload reaches the session.
\<close>

theorem validate_fail_fast:
  assumes "k < length qs" and "\<forall>j<k. is_question (qs ! j)"
    and "invalid_structure (qs ! k) = Inr True"
  shows "validate (Parsed (JArr qs)) = Inl (InvalidStructure k)
    \<and> onload (Parsed (JArr qs)) s =
        s\<lparr>uploadError := ''Invalid JSON format. Please check your file structure.''\<rparr>"
  using forEach_check_first_failure [OF assms(1,2), of 0] assms(3)
  by (simp add: onload_def)

text \<open>Two questions, then a record whose \<^verbatim>\<open>choices\<close> is a string, then a number.\<close>

theorem validate_fail_fast_witness:
  "is_question one_plus_one \<and> is_question two_plus_two
   \<and> invalid_structure (JObj [(''question'', JStr ''3+3?''), (''choices'', JStr ''6''), (''answer'', JNum 0)]) = Inr True
   \<and> validate (Parsed (JArr [one_plus_one, two_plus_two,
         JObj [(''question'', JStr ''3+3?''), (''choices'', JStr ''6''), (''answer'', JNum 0)],
         JNum 5])) = Inl (InvalidStructure 2)"
proof -
  let ?bad = "JObj [(''question'', JStr ''3+3?''), (''choices'', JStr ''6''), (''answer'', JNum 0)]"
  let ?qs = "[one_plus_one, two_plus_two, ?bad, JNum 5]"
  have b: "invalid_structure (?qs ! 2) = Inr True"
    by (simp add: invalid_structure_def)
  have pre: "\<forall>j<2. is_question (?qs ! j)"
    using example_questions by (simp add: less_Suc_eq numeral_2_eq_2)
  have k: "2 < length ?qs" by simp
  from validate_fail_fast [OF k pre b] example_questions b show ?thesis by simp
qed

text \<open>
  C6.  When an upload is refused, whether the file gave no text, the text did not parse,
  the document is not an array or an element is refused, the questions, the answer map,
  the position and the screen are what they were; only the error message is set.
\<close>

theorem failed_upload_keeps_session:
  assumes "validate r = Inl e"
  shows "onload r s = s\<lparr>uploadError := ''Invalid JSON format. Please check your file structure.''\<rparr>
    \<and> questions (onload r s) = questions s
    \<and> userAnswers (onload r s) = userAnswers s
    \<and> currentQuestion (onload r s) = currentQuestion s
    \<and> showResults (onload r s) = showResults s
    \<and> examStarted (onload r s) = examStarted s
    \<and> phase_of (onload r s) = phase_of s"
  using assms by (simp add: onload_def phase_of_def)

text \<open>One refused upload of each kind, during a session in progress.\<close>

theorem failed_upload_keeps_session_witness:
  "validate NoText = Inl ReadError
   \<and> validate BadSyntax = Inl SyntaxError
   \<and> validate (Parsed (JObj [])) = Inl NotAnArray
   \<and> validate (Parsed (JArr [one_plus_one, JStr ''2+2?''])) = Inl (InvalidStructure 1)
   \<and> questions (onload NoText in_progress) = questions in_progress
   \<and> userAnswers (onload BadSyntax in_progress) = userAnswers in_progress
   \<and> currentQuestion (onload (Parsed (JObj [])) in_progress) = currentQuestion in_progress
   \<and> phase_of (onload (Parsed (JArr [one_plus_one, JStr ''2+2?''])) in_progress) = InProgress
   \<and> uploadError (onload (Parsed (JArr [one_plus_one, JStr ''2+2?''])) in_progress) =
       ''Invalid JSON format. Please check your file structure.''"
proof -
  have v: "validate NoText = Inl ReadError" "validate BadSyntax = Inl SyntaxError"
    "validate (Parsed (JObj [])) = Inl NotAnArray"
    "validate (Parsed (JArr [one_plus_one, JStr ''2+2?''])) = Inl (InvalidStructure 1)"
    using example_questions by (simp_all add: is_question_def invalid_structure_def)
  have p: "phase_of in_progress = InProgress"
    by (simp add: in_progress_def phase_of_def)
  have a: "questions (onload NoText in_progress) = questions in_progress"
    using failed_upload_keeps_session [OF v(1), of in_progress] by blast
  have b: "userAnswers (onload BadSyntax in_progress) = userAnswers in_progress"
    using failed_upload_keeps_session [OF v(2), of in_progress] by blast
  have c: "currentQuestion (onload (Parsed (JObj [])) in_progress) = currentQuestion in_progress"
    using failed_upload_keeps_session [OF v(3), of in_progress] by blast
  have "phase_of (onload (Parsed (JArr [one_plus_one, JStr ''2+2?''])) in_progress) =
      phase_of in_progress"
    using failed_upload_keeps_session [OF v(4), of in_progress] by blast
  then have d: "phase_of (onload (Parsed (JArr [one_plus_one, JStr ''2+2?''])) in_progress) = InProgress"
    by (simp only: p)
  have "onload (Parsed (JArr [one_plus_one, JStr ''2+2?''])) in_progress =
      in_progress\<lparr>uploadError := ''Invalid JSON format. Please check your file structure.''\<rparr>"
    using failed_upload_keeps_session [OF v(4), of in_progress] by blast
  then have e: "uploadError (onload (Parsed (JArr [one_plus_one, JStr ''2+2?''])) in_progress) =
       ''Invalid JSON format. Please check your file structure.''"
    by simp
  from v a b c d e show ?thesis by blast
qed

text \<open>
  An empty array passes the check.  Loading it during a session in progress shows the
  upload screen and not the pre-exam screen.
\<close>

theorem load_empty_set_counterexample:
  "phase_of in_progress = InProgress
   \<and> validate (Parsed (JArr [])) = Inr []
   \<and> phase_of (onload (Parsed (JArr [])) in_progress) = Empty
   \<and> phase_of (load [] in_progress) \<noteq> Ready"
  by (simp add: onload_def load_def phase_of_def in_progress_def)

text \<open>
  C3.  From any state, an upload that passes the check installs its question set, empties
  the answer map, puts the position at 0 and clears the error message.  The screen is then
  the pre-exam screen when the set has a question, and the upload screen when it has none.
\<close>

theorem load_supersedes:
  assumes "validate r = Inr S"
  shows "onload r s = load S s
    \<and> questions (load S s) = S
    \<and> userAnswers (load S s) = fmempty
    \<and> currentQuestion (load S s) = 0
    \<and> uploadError (load S s) = []
    \<and> phase_of (load S s) = (if S = [] then Empty else Ready)"
  using assms by (simp add: onload_def load_def phase_of_def)

text \<open>A one-question set uploaded over a session in progress with an answer given.\<close>

theorem load_supersedes_witness:
  "phase_of in_progress = InProgress
   \<and> fmlookup (userAnswers in_progress) 0 = Some 1
   \<and> currentQuestion in_progress = 1
   \<and> validate (Parsed (JArr [two_plus_two])) = Inr [two_plus_two]
   \<and> questions (onload (Parsed (JArr [two_plus_two])) in_progress) = [two_plus_two]
   \<and> userAnswers (onload (Parsed (JArr [two_plus_two])) in_progress) = fmempty
   \<and> currentQuestion (onload (Parsed (JArr [two_plus_two])) in_progress) = 0
   \<and> phase_of (onload (Parsed (JArr [two_plus_two])) in_progress) = Ready"
proof -
  have v: "validate (Parsed (JArr [two_plus_two])) = Inr [two_plus_two]"
    using example_questions by (simp add: is_question_def)
  have p: "phase_of in_progress = InProgress" "fmlookup (userAnswers in_progress) 0 = Some 1"
    "currentQuestion in_progress = 1"
    by (simp_all add: in_progress_def phase_of_def)
  from load_supersedes [OF v, of in_progress] v p show ?thesis by simp
qed

section \<open>Restart\<close>

text \<open>With no question loaded, \<^verbatim>\<open>restartExam\<close> leaves the upload screen showing.\<close>

theorem restart_without_questions_counterexample:
  "phase_of (restartExam initial) = Empty \<and> phase_of (restartExam initial) \<noteq> Ready"
  by (simp add: restartExam_def phase_of_def initial_def)

text \<open>
  C9.  From any state, \<^verbatim>\<open>restartExam\<close> empties the answer map and puts the position at 0,
  and the questions are the same list as before.  The screen is then the pre-exam screen
  when there is a question, and the upload screen when there is none.
\<close>

theorem restart_keeps_questions:
  "userAnswers (restartExam s) = fmempty
   \<and> currentQuestion (restartExam s) = 0
   \<and> questions (restartExam s) = questions s
   \<and> uploadError (restartExam s) = uploadError s
   \<and> phase_of (restartExam s) = (if questions s = [] then Empty else Ready)"
  by (simp add: restartExam_def phase_of_def)

text \<open>Restart from the results screen of the three-question session.\<close>

theorem restart_keeps_questions_witness:
  "phase_of (finishExam in_progress) = Results
   \<and> userAnswers (restartExam (finishExam in_progress)) = fmempty
   \<and> currentQuestion (restartExam (finishExam in_progress)) = 0
   \<and> questions (restartExam (finishExam in_progress)) =
       [one_plus_one, two_plus_two, three_plus_three]
   \<and> phase_of (restartExam (finishExam in_progress)) = Ready"
proof -
  have p: "phase_of (finishExam in_progress) = Results"
    "questions (finishExam in_progress) = [one_plus_one, two_plus_two, three_plus_three]"
    by (simp_all add: finishExam_def in_progress_def phase_of_def)
  from restart_keeps_questions [of "finishExam in_progress"] p show ?thesis by simp
qed

section \<open>Start, finish and reset\<close>

text \<open>
  \<^verbatim>\<open>Start Exam\<close> takes the pre-exam screen to the exam screen and \<^verbatim>\<open>Finish Exam\<close> takes the
  exam screen to the results screen, whatever has been answered; neither touches the
  questions, the answers or the position.  \<^verbatim>\<open>Upload New Quiz\<close> drops the questions and the
  answers and shows the upload screen.
\<close>

theorem phase_transitions:
  "(phase_of s = Ready \<longrightarrow> phase_of (startExam s) = InProgress)
   \<and> (phase_of s = InProgress \<longrightarrow> phase_of (finishExam s) = Results)
   \<and> questions (startExam s) = questions s
   \<and> userAnswers (startExam s) = userAnswers s
   \<and> currentQuestion (startExam s) = currentQuestion s
   \<and> questions (finishExam s) = questions s
   \<and> userAnswers (finishExam s) = userAnswers s
   \<and> currentQuestion (finishExam s) = currentQuestion s
   \<and> phase_of (uploadNewQuiz s) = Empty
   \<and> questions (uploadNewQuiz s) = []
   \<and> userAnswers (uploadNewQuiz s) = fmempty
   \<and> currentQuestion (uploadNewQuiz s) = 0"
  by (auto simp: phase_of_def startExam_def finishExam_def uploadNewQuiz_def split: if_splits)

text \<open>The session in progress is finished with two questions unanswered.\<close>

theorem phase_transitions_witness:
  "phase_of in_progress = InProgress
   \<and> phase_of (finishExam in_progress) = Results
   \<and> fmdom (userAnswers (finishExam in_progress)) = {|0|}
   \<and> phase_of (load [two_plus_two] in_progress) = Ready
   \<and> phase_of (startExam (load [two_plus_two] in_progress)) = InProgress
   \<and> phase_of (uploadNewQuiz in_progress) = Empty"
proof -
  have p: "phase_of in_progress = InProgress"
    "fmdom (userAnswers in_progress) = {|0|}"
    "phase_of (load [two_plus_two] in_progress) = Ready"
    by (simp_all add: in_progress_def phase_of_def load_def)
  have a: "phase_of (finishExam in_progress) = Results"
    "userAnswers (finishExam in_progress) = userAnswers in_progress"
    "phase_of (uploadNewQuiz in_progress) = Empty"
    using phase_transitions [of in_progress] p(1) by simp_all
  have b: "phase_of (startExam (load [two_plus_two] in_progress)) = InProgress"
    using phase_transitions [of "load [two_plus_two] in_progress"] p(3) by simp
  from p a b show ?thesis by simp
qed

section \<open>The colour of the score\<close>

text \<open>
  C5.  For a score given as a number \<open>s\<close>, \<^verbatim>\<open>getScoreColor\<close> gives the green class (the band
  called high) exactly when \<open>s \<ge> 80\<close>, the yellow class (medium) exactly when
  \<open>60 \<le> s < 80\<close> and the red class (low) exactly when \<open>s < 60\<close>; a score given as text
  is banded as the number that \<^verbatim>\<open>parseFloat\<close> reads from it.  So 79.99 is medium, 80 is
  high, 59.99 is low and 60 is medium.
\<close>

theorem getScoreColor_bands:
  "(getScoreColor parseFloat (ScoreNumber s) = ''text-green-600'' \<longleftrightarrow> 80 \<le> s)
   \<and> (getScoreColor parseFloat (ScoreNumber s) = ''text-yellow-600'' \<longleftrightarrow> 60 \<le> s \<and> s < 80)
   \<and> (getScoreColor parseFloat (ScoreNumber s) = ''text-red-600'' \<longleftrightarrow> s < 60)
   \<and> (parseFloat t = Some s \<longrightarrow>
        getScoreColor parseFloat (ScoreText t) = getScoreColor parseFloat (ScoreNumber s))
   \<and> getScoreColor parseFloat (ScoreNumber (7999 / 100)) = ''text-yellow-600''
   \<and> getScoreColor parseFloat (ScoreNumber 80) = ''text-green-600''
   \<and> getScoreColor parseFloat (ScoreNumber (5999 / 100)) = ''text-red-600''
   \<and> getScoreColor parseFloat (ScoreNumber 60) = ''text-yellow-600''"
  by (simp add: getScoreColor_def)

text \<open>A score text read as 83.3, the number 0 and the number 66.5.\<close>

theorem getScoreColor_bands_witness:
  "getScoreColor (\<lambda>t. if t = ''83.3'' then Some (833 / 10) else None) (ScoreText ''83.3'') =
     ''text-green-600''
   \<and> getScoreColor (\<lambda>t. None) (ScoreNumber 0) = ''text-red-600''
   \<and> getScoreColor (\<lambda>t. None) (ScoreNumber (133 / 2)) = ''text-yellow-600''"
proof -
  let ?pf = "\<lambda>t. if t = ''83.3'' then Some (833 / 10 :: rat) else None"
  have a: "getScoreColor ?pf (ScoreText ''83.3'') = getScoreColor ?pf (ScoreNumber (833 / 10))"
    using getScoreColor_bands [of ?pf "833 / 10" "''83.3''"] by simp
  have b: "getScoreColor ?pf (ScoreNumber (833 / 10)) = ''text-green-600''"
    using getScoreColor_bands [of ?pf "833 / 10" "''83.3''"] by simp
  have c: "getScoreColor (\<lambda>t. None) (ScoreNumber 0) = ''text-red-600''"
    using getScoreColor_bands [of "\<lambda>t. None" 0 "[]"] by simp
  have d: "getScoreColor (\<lambda>t. None) (ScoreNumber (133 / 2)) = ''text-yellow-600''"
    using getScoreColor_bands [of "\<lambda>t. None" "133 / 2" "[]"] by simp
  from a b c d show ?thesis by simp
qed


section \<open>Reachable sessions\<close>

lemma session_inv_initial: "session_inv initial"
  by (simp add: session_inv_def initial_def question_set_def)

lemma session_inv_onload: "session_inv s \<Longrightarrow> session_inv (onload r s)"
proof (cases "validate r")
  case (Inl e)
  then show "session_inv s \<Longrightarrow> session_inv (onload r s)"
    by (simp add: onload_def session_inv_def)
next
  case (Inr qs)
  from validate_question_set [OF Inr] show "session_inv (onload r s)"
    by (simp add: onload_def load_def session_inv_def Inr)
qed

lemma session_inv_select:
  assumes "session_inv s" and "phase_of s = InProgress"
  shows "session_inv (handleAnswerSelect a s)"
proof -
  from assms(2) have "questions s \<noteq> []"
    by (auto simp: phase_of_def split: if_splits)
  with assms(1) have "0 \<le> currentQuestion s" "currentQuestion s < int (length (questions s))"
    by (auto simp: session_inv_def)
  with assms(1) show ?thesis
    by (auto simp: session_inv_def handleAnswerSelect_def)
qed

lemma session_inv_fire:
  assumes "session_inv s" and "enabled s e"
  shows "session_inv (fire e s)"
proof (cases e)
  case (FileRead r)
  with assms show ?thesis by (simp add: session_inv_onload)
next
  case Start
  with assms show ?thesis by (simp add: session_inv_def startExam_def)
next
  case (Select a)
  with assms show ?thesis by (simp add: session_inv_select)
next
  case Next
  with assms show ?thesis by (auto simp: session_inv_def nextQuestion_def)
next
  case Previous
  with assms show ?thesis by (auto simp: session_inv_def prevQuestion_def)
next
  case Finish
  with assms show ?thesis by (simp add: session_inv_def finishExam_def)
next
  case Restart
  with assms show ?thesis by (simp add: session_inv_def restartExam_def)
next
  case Reset
  with assms show ?thesis by (simp add: session_inv_def uploadNewQuiz_def question_set_def)
qed

lemma reachable_session_inv: "reachable s \<Longrightarrow> session_inv s"
  by (induction rule: reachable.induct) (simp_all add: session_inv_initial session_inv_fire)

lemma correct_le_answered:
  "card {j. correct_at ua qs 0 j} \<le> fcard (fmdom ua)"
proof -
  have "int ` {j. correct_at ua qs 0 j} \<subseteq> fset (fmdom ua)"
    by (auto simp: correct_at_def fmlookup_dom_iff)
  then have "card {j. correct_at ua qs 0 j} \<le> card (fset (fmdom ua))"
    by (intro card_inj_on_le [of int]) simp_all
  then show ?thesis by (simp add: fcard.rep_eq)
qed

lemma answered_le_total:
  assumes "\<forall>k. k |\<in>| fmdom ua \<longrightarrow> 0 \<le> k \<and> k < int n"
  shows "fcard (fmdom ua) \<le> n"
proof -
  have "fset (fmdom ua) \<subseteq> int ` {..<n}"
  proof
    fix k assume "k \<in> fset (fmdom ua)"
    with assms have "0 \<le> k" "k < int n" by auto
    then have "k = int (nat k)" "nat k < n" by auto
    then show "k \<in> int ` {..<n}" by blast
  qed
  then have "card (fset (fmdom ua)) \<le> card (int ` {..<n})"
    by (intro card_mono) simp_all
  also have "\<dots> = n" by (simp add: card_image)
  finally show ?thesis by (simp add: fcard.rep_eq)
qed

text \<open>
  C10.  In every session reachable from the initial one by uploads, start, answers, next,
  previous, finish, restart and reset, each where its screen offers it, every key of the
  answer map lies in \<open>[0, N - 1]\<close> for \<open>N\<close> the number of questions; and
  \<^verbatim>\<open>calculateResults\<close> returns counts with \<open>0 \<le> correct \<le> answered \<le> total\<close>.
\<close>

theorem reachable_answer_keys:
  assumes "reachable s"
  shows "(\<forall>k. k |\<in>| fmdom (userAnswers s) \<longrightarrow> 0 \<le> k \<and> k \<le> int (length (questions s)) - 1)
    \<and> (\<exists>r. calculateResults s = Inr r
          \<and> 0 \<le> correctAnswers r
          \<and> correctAnswers r \<le> answeredQuestions r
          \<and> answeredQuestions r \<le> totalQuestions r)"
proof -
  from reachable_session_inv [OF assms] have qs: "question_set (questions s)"
    and keys: "\<forall>k. k |\<in>| fmdom (userAnswers s) \<longrightarrow> 0 \<le> k \<and> k < int (length (questions s))"
    by (simp_all add: session_inv_def)
  from keys have k1: "\<forall>k. k |\<in>| fmdom (userAnswers s) \<longrightarrow>
      0 \<le> k \<and> k \<le> int (length (questions s)) - 1"
    by auto
  have "correctAnswers r \<le> answeredQuestions r \<and> answeredQuestions r \<le> totalQuestions r"
    if "calculateResults s = Inr r" for r
    using that calculateResults_question_set [OF qs] correct_le_answered answered_le_total [OF keys]
    by auto
  moreover have "\<exists>r. calculateResults s = Inr r"
    using calculateResults_question_set [OF qs] by simp
  ultimately show ?thesis using k1 by auto
qed

lemma example_session_eq:
  "example_session =
     \<lparr>questions = [one_plus_one, two_plus_two, three_plus_three], currentQuestion = 1,
      userAnswers = fmupd 1 0 (fmupd 0 1 fmempty), showResults = True, examStarted = True,
      uploadError = []\<rparr>"
  using example_questions
  by (simp add: example_session_def onload_def load_def is_question_def startExam_def
      handleAnswerSelect_def nextQuestion_def finishExam_def initial_def)

lemma phase_of_handleAnswerSelect: "phase_of (handleAnswerSelect a s) = phase_of s"
  by (simp add: handleAnswerSelect_def phase_of_def)

lemma phase_of_nextQuestion: "phase_of (nextQuestion s) = phase_of s"
  by (simp add: nextQuestion_def phase_of_def)

lemma phase_of_prevQuestion: "phase_of (prevQuestion s) = phase_of s"
  by (simp add: prevQuestion_def phase_of_def)

lemma reachable_example_session: "reachable example_session"
proof -
  let ?r = "Parsed (JArr [one_plus_one, two_plus_two, three_plus_three])"
  let ?s1 = "fire (FileRead ?r) initial"
  let ?s2 = "fire Start ?s1"
  let ?s3 = "fire (Select 1) ?s2"
  let ?s4 = "fire Next ?s3"
  let ?s5 = "fire (Select 0) ?s4"
  have v: "validate ?r = Inr [one_plus_one, two_plus_two, three_plus_three]"
    using example_questions by (simp add: is_question_def)
  have s1: "onload ?r initial = load [one_plus_one, two_plus_two, three_plus_three] initial"
    by (simp only: onload_def v sum.case)
  have p1: "phase_of ?s1 = Ready"
    by (simp add: s1 load_def phase_of_def)
  have p2: "phase_of ?s2 = InProgress"
    by (simp add: s1 load_def phase_of_def startExam_def)
  have p3: "phase_of ?s3 = InProgress"
    using p2 by (simp add: phase_of_handleAnswerSelect)
  have p4: "phase_of ?s4 = InProgress"
    using p3 by (simp add: phase_of_nextQuestion)
  have p5: "phase_of ?s5 = InProgress"
    using p4 by (simp add: phase_of_handleAnswerSelect)
  have r1: "reachable ?s1"
    by (rule reachable_fire [OF reachable_initial]) simp
  have r2: "reachable ?s2"
    by (rule reachable_fire [OF r1]) (simp only: enabled.simps p1)
  have r3: "reachable ?s3"
    by (rule reachable_fire [OF r2]) (simp only: enabled.simps p2)
  have r4: "reachable ?s4"
    by (rule reachable_fire [OF r3]) (simp only: enabled.simps p3)
  have r5: "reachable ?s5"
    by (rule reachable_fire [OF r4]) (simp only: enabled.simps p4)
  show ?thesis
    unfolding example_session_def
    by (rule reachable_fire [OF r5]) (simp only: enabled.simps p5)
qed

text \<open>The example session is reachable and is on the results screen.\<close>

theorem reachable_answer_keys_witness:
  "reachable example_session
   \<and> phase_of example_session = Results
   \<and> length (questions example_session) = 3
   \<and> fmdom (userAnswers example_session) = {|0, 1|}
   \<and> (\<exists>r. calculateResults example_session = Inr r
          \<and> correctAnswers r \<le> answeredQuestions r
          \<and> answeredQuestions r \<le> totalQuestions r)"
proof -
  have a: "phase_of example_session = Results" "length (questions example_session) = 3"
    "fmdom (userAnswers example_session) = {|0, 1|}"
    by (auto simp: example_session_eq phase_of_def)
  from reachable_answer_keys [OF reachable_example_session] a reachable_example_session
  show ?thesis by blast
qed


section \<open>Doubles: the rounding error\<close>

lemma round_half_even_error: "\<bar>of_int (round_half_even m) - m\<bar> \<le> 1 / 2"
proof -
  have "of_int \<lfloor>m\<rfloor> \<le> m" "m < of_int \<lfloor>m\<rfloor> + 1"
    by linarith+
  then show ?thesis
    by (auto simp: round_half_even_def Let_def)
qed

lemma round_half_even_nonneg: "0 \<le> m \<Longrightarrow> 0 \<le> round_half_even m"
  by (auto simp: round_half_even_def Let_def)

lemma ilog2_bounds:
  assumes "0 < x"
  shows "2 powi (ilog2 x) \<le> x" and "x < 2 powi (ilog2 x + 1)"
proof -
  obtain p q where pq: "quotient_of x = (p, q)" by (cases "quotient_of x")
  then have q: "0 < q" and x: "x = of_int p / of_int q"
    by (simp_all add: quotient_of_denom_pos quotient_of_div)
  from assms x q have p: "0 < p"
    by (simp add: zero_less_divide_iff)
  define bp where "bp = nat (bitlen p)"
  define bq where "bq = nat (bitlen q)"
  have bl: "bitlen p = int bp" "bitlen q = int bq"
    by (simp_all add: bp_def bq_def bitlen_nonneg)
  have "1 \<le> bitlen p" "1 \<le> bitlen q"
    using p q by (simp_all add: bitlen_alt_def)
  then have b1: "1 \<le> bp" "1 \<le> bq"
    by (simp_all add: bl)
  have m1: "nat (bitlen p - 1) = bp - 1" "nat (bitlen q - 1) = bq - 1"
    using b1 by (simp_all add: bl)
  from bitlen_bounds [OF p] have "2 ^ (bp - 1) \<le> p" "p < 2 ^ bp"
    by (simp_all only: m1 bp_def)
  then have "(of_int (2 ^ (bp - 1)) :: rat) \<le> of_int p" "(of_int p :: rat) < of_int (2 ^ bp)"
    by (simp_all only: of_int_le_iff of_int_less_iff)
  then have P: "(2::rat) ^ (bp - 1) \<le> of_int p" "of_int p < (2::rat) ^ bp"
    by simp_all
  from bitlen_bounds [OF q] have "2 ^ (bq - 1) \<le> q" "q < 2 ^ bq"
    by (simp_all only: m1 bq_def)
  then have "(of_int (2 ^ (bq - 1)) :: rat) \<le> of_int q" "(of_int q :: rat) < of_int (2 ^ bq)"
    by (simp_all only: of_int_le_iff of_int_less_iff)
  then have Q: "(2::rat) ^ (bq - 1) \<le> of_int q" "of_int q < (2::rat) ^ bq"
    by simp_all
  have below: "(2::rat) powi (int bp - int bq - 1) \<le> x"
  proof -
    have eq: "int bp - int bq - 1 = int (bp - 1) - int bq"
      using b1 by simp
    have "(2::rat) powi (int bp - int bq - 1) = 2 powi (int (bp - 1) - int bq)"
      by (simp only: eq)
    also have "\<dots> = 2 powi int (bp - 1) / 2 powi int bq"
      by (rule power_int_diff) simp
    also have "\<dots> = 2 ^ (bp - 1) / 2 ^ bq"
      by (simp only: power_int_of_nat)
    also have "\<dots> \<le> of_int p / of_int q"
      using P(1) Q(2) q p by (intro frac_le) simp_all
    finally show ?thesis
      by (simp only: x [symmetric])
  qed
  have above: "x < (2::rat) powi (int bp - int bq + 1)"
  proof -
    have eq: "int bp - int bq + 1 = int bp - int (bq - 1)"
      using b1 by simp
    have "of_int p / of_int q < (2::rat) ^ bp / 2 ^ (bq - 1)"
      using P(2) Q(1) q p by (intro frac_less) simp_all
    also have "\<dots> = 2 powi int bp / 2 powi int (bq - 1)"
      by (simp only: power_int_of_nat)
    also have "\<dots> = 2 powi (int bp - int (bq - 1))"
      by (rule power_int_diff [symmetric]) simp
    finally show ?thesis
      by (simp only: x [symmetric] eq)
  qed
  show "2 powi (ilog2 x) \<le> x"
  proof (cases "2 powi (int bp - int bq) \<le> x")
    case True
    then show ?thesis by (simp add: ilog2_def pq bl)
  next
    case False
    then have "ilog2 x = int bp - int bq - 1"
      by (simp add: ilog2_def pq bl)
    with below show ?thesis by (simp only:)
  qed
  show "x < 2 powi (ilog2 x + 1)"
  proof (cases "2 powi (int bp - int bq) \<le> x")
    case True
    then have "ilog2 x = int bp - int bq"
      by (simp add: ilog2_def pq bl)
    with above show ?thesis by (simp only:)
  next
    case False
    then have "ilog2 x = int bp - int bq - 1"
      by (simp add: ilog2_def pq bl)
    with False show ?thesis by simp
  qed
qed

lemma to_double_error: "\<bar>to_double x - x\<bar> \<le> \<bar>x\<bar> / 2 ^ 53"
proof (cases "x = 0")
  case True
  then show ?thesis by (simp add: to_double_def)
next
  case False
  define u :: rat where "u = 2 powi (ilog2 \<bar>x\<bar> - 52)"
  define M where "M = round_half_even (\<bar>x\<bar> / u)"
  have u: "0 < u" by (simp add: u_def)
  have td: "to_double x = sgn x * of_int M * u"
    using False by (simp add: to_double_def u_def M_def Let_def)
  have "2 powi (ilog2 \<bar>x\<bar>) \<le> \<bar>x\<bar>"
    using False by (intro ilog2_bounds) simp
  moreover have "(2::rat) powi (ilog2 \<bar>x\<bar>) = u * 2 ^ 52"
    by (simp add: u_def power_int_diff)
  ultimately have ux: "u * 2 ^ 52 \<le> \<bar>x\<bar>" by simp
  have "\<bar>of_int M - \<bar>x\<bar> / u\<bar> \<le> 1 / 2"
    unfolding M_def by (rule round_half_even_error)
  then have "\<bar>of_int M - \<bar>x\<bar> / u\<bar> * u \<le> 1 / 2 * u"
    using u by (intro mult_right_mono) simp_all
  moreover have "\<bar>of_int M - \<bar>x\<bar> / u\<bar> * u = \<bar>(of_int M - \<bar>x\<bar> / u) * u\<bar>"
    using u by (simp add: abs_mult)
  moreover have "(of_int M - \<bar>x\<bar> / u) * u = of_int M * u - \<bar>x\<bar>"
    using u by (simp add: left_diff_distrib)
  ultimately have m: "\<bar>of_int M * u - \<bar>x\<bar>\<bar> \<le> u / 2" by simp
  have "to_double x - x = sgn x * (of_int M * u - \<bar>x\<bar>)"
    by (simp add: td right_diff_distrib mult.assoc mult_sgn_abs)
  then have "\<bar>to_double x - x\<bar> = \<bar>of_int M * u - \<bar>x\<bar>\<bar>"
    using False by (simp add: abs_mult abs_sgn_eq)
  with m have "\<bar>to_double x - x\<bar> \<le> u / 2" by simp
  also have "u / 2 \<le> \<bar>x\<bar> / 2 ^ 53"
    using ux by simp
  finally show ?thesis .
qed

lemma to_double_nonneg: "0 \<le> x \<Longrightarrow> 0 \<le> to_double x"
  by (auto simp: to_double_def Let_def round_half_even_nonneg sgn_if intro!: mult_nonneg_nonneg)


lemma to_double_relative:
  assumes "\<bar>x\<bar> \<le> b" and "e = 1 / 2 ^ 53"
  shows "\<bar>to_double x - x\<bar> \<le> b * e"
proof -
  have "\<bar>to_double x - x\<bar> \<le> \<bar>x\<bar> / 2 ^ 53"
    by (rule to_double_error)
  also have "\<dots> = \<bar>x\<bar> * e"
    by (simp add: assms(2))
  also have "\<dots> \<le> b * e"
    using assms by (intro mult_right_mono) simp_all
  finally show ?thesis .
qed

text \<open>
  The result of \<open>to_double\<close> has a mantissa of 53 bits at the exponent of its argument.
\<close>

lemma round_half_even_range:
  assumes "of_int a \<le> m" and "m < of_int b"
  shows "a \<le> round_half_even m" and "round_half_even m \<le> b"
proof -
  have "a \<le> \<lfloor>m\<rfloor>" "\<lfloor>m\<rfloor> < b"
    using assms by (simp_all add: le_floor_iff floor_less_iff)
  then show "a \<le> round_half_even m" and "round_half_even m \<le> b"
    by (auto simp: round_half_even_def Let_def)
qed

lemma to_double_mantissa:
  assumes "x \<noteq> 0"
  shows "\<exists>M. to_double x = sgn x * of_int M * 2 powi (ilog2 \<bar>x\<bar> - 52)
           \<and> 2 ^ 52 \<le> M \<and> M \<le> 2 ^ 53"
proof -
  define u :: rat where "u = 2 powi (ilog2 \<bar>x\<bar> - 52)"
  define M where "M = round_half_even (\<bar>x\<bar> / u)"
  have u: "0 < u" by (simp add: u_def)
  have ax: "0 < \<bar>x\<bar>" using assms by simp
  have "(2::rat) powi (ilog2 \<bar>x\<bar>) = u * 2 ^ 52"
    by (simp add: u_def power_int_diff)
  with ilog2_bounds(1) [OF ax] have "u * 2 ^ 52 \<le> \<bar>x\<bar>" by simp
  then have lo: "of_int (2 ^ 52) \<le> \<bar>x\<bar> / u"
    using u by (simp add: le_divide_eq mult.commute)
  have "(2::rat) powi (ilog2 \<bar>x\<bar> + 1) = u * 2 ^ 53"
    by (simp add: u_def power_int_diff power_int_add)
  with ilog2_bounds(2) [OF ax] have "\<bar>x\<bar> < u * 2 ^ 53" by simp
  then have hi: "\<bar>x\<bar> / u < of_int (2 ^ 53)"
    using u by (simp add: divide_less_eq mult.commute)
  have "2 ^ 52 \<le> M" "M \<le> 2 ^ 53"
    unfolding M_def using round_half_even_range [OF lo hi] by simp_all
  moreover have "to_double x = sgn x * of_int M * u"
    using assms by (simp add: to_double_def u_def M_def Let_def)
  ultimately show ?thesis
    unfolding u_def by blast
qed

section \<open>The score\<close>

text \<open>
  The quotient of two counts is rounded to a double, and so is its product with 100; the
  result is within \<open>1 / 2 ^ 44\<close> of the exact percentage.  An array has fewer than
  \<open>2 ^ 32\<close> elements, so the tenth that \<^verbatim>\<open>toFixed\<close> picks is a nearest tenth of the exact
  percentage.
\<close>

lemma score_double_error:
  assumes "c \<le> t" and "0 < t"
  shows "0 \<le> fmul (fdiv (of_nat c) (of_nat t)) 100"
    and "\<bar>fmul (fdiv (of_nat c) (of_nat t)) 100 - 100 * of_nat c / of_nat t\<bar> \<le> 1 / 2 ^ 44"
proof -
  define q :: rat where "q = of_nat c / of_nat t"
  define a where "a = to_double q"
  define y where "y = to_double (a * 100)"
  define e :: rat where "e = 1 / 2 ^ 53"
  have e: "0 \<le> e" "e \<le> 1" "300 * e \<le> 1 / 2 ^ 44"
    by (simp_all add: e_def)
  have y: "fmul (fdiv (of_nat c) (of_nat t)) 100 = y"
    by (simp add: fmul_def fdiv_def y_def a_def q_def)
  have q0: "0 \<le> q" and q1: "q \<le> 1"
    using assms by (simp_all add: q_def)
  have a0: "0 \<le> a"
    unfolding a_def using q0 by (rule to_double_nonneg)
  have "\<bar>q\<bar> \<le> 1" using q0 q1 by simp
  then have "\<bar>a - q\<bar> \<le> 1 * e"
    unfolding a_def using e_def by (rule to_double_relative)
  then have aq: "\<bar>a - q\<bar> \<le> e" by simp
  have a2: "a \<le> 2"
    using aq q1 e by linarith
  have "\<bar>a * 100\<bar> \<le> 200" using a0 a2 by simp
  then have ya: "\<bar>y - a * 100\<bar> \<le> 200 * e"
    unfolding y_def using e_def by (rule to_double_relative)
  have "0 \<le> a * 100" using a0 by simp
  then show "0 \<le> fmul (fdiv (of_nat c) (of_nat t)) 100"
    unfolding y y_def by (rule to_double_nonneg)
  have "\<bar>y - 100 * q\<bar> \<le> 300 * e"
    using ya aq by linarith
  also note e(3)
  finally have "\<bar>y - 100 * q\<bar> \<le> 1 / 2 ^ 44" .
  moreover have "100 * q = 100 * of_nat c / of_nat t"
    by (simp add: q_def)
  ultimately show "\<bar>fmul (fdiv (of_nat c) (of_nat t)) 100 - 100 * of_nat c / of_nat t\<bar> \<le> 1 / 2 ^ 44"
    by (simp only: y)
qed

lemma toFixed_nearest:
  fixes y :: rat
  assumes y0: "0 \<le> y"
    and err: "\<bar>y - 100 * of_nat c / of_nat t\<bar> \<le> 1 / 2 ^ 44"
    and t0: "0 < t" and t32: "t < 2 ^ 32"
  shows "\<bar>of_nat (nat \<lfloor>10 * y + 1 / 2\<rfloor>) / 10 - 100 * of_nat c / of_nat t\<bar> \<le> (1 / 20 :: rat)"
proof -
  define N where "N = \<lfloor>10 * y + 1 / 2\<rfloor>"
  define D where "D = N * int t - 1000 * int c"
  define T :: rat where "T = of_nat t"
  define C :: rat where "C = of_nat c"
  define X where "X = 100 * C / T"
  define d :: rat where "d = 1 / 2 ^ 44"
  define yT where "yT = y * T"
  define dT where "dT = d * T"
  define NT where "NT = of_int N * T"
  have T0: "0 < T" and T32: "T < 2 ^ 32"
    using t0 t32 by (simp_all add: T_def)
  have d0: "0 < d" by (simp add: d_def)
  have "d * T < d * 2 ^ 32"
    using T32 d0 by (rule mult_strict_left_mono)
  also have "d * 2 ^ 32 = 1 / 4096"
    by (simp add: d_def)
  finally have dT: "dT < 1 / 4096" by (simp add: dT_def)
  have N0: "0 \<le> N"
    unfolding N_def using y0 by simp
  have lo: "of_int N \<le> 10 * y + 1 / 2" and hi: "10 * y + 1 / 2 < of_int N + 1"
    unfolding N_def by linarith+
  have XT: "X * T = 100 * C"
    using T0 by (simp add: X_def)
  have err': "y - X \<le> d" "- d \<le> y - X"
    using err unfolding X_def C_def T_def d_def by linarith+
  have "(y - X) * T \<le> d * T"
    using err'(1) T0 by (intro mult_right_mono) simp_all
  moreover have "(- d) * T \<le> (y - X) * T"
    using err'(2) T0 by (intro mult_right_mono) simp_all
  moreover have "(y - X) * T = yT - 100 * C"
    by (simp only: left_diff_distrib XT yT_def)
  ultimately have ex: "yT - 100 * C \<le> dT" "- dT \<le> yT - 100 * C"
    by (simp_all add: dT_def)
  have Dr: "of_int D = NT - 1000 * C"
    by (simp add: D_def T_def C_def NT_def)
  have "of_int N * T \<le> (10 * y + 1 / 2) * T"
    using lo T0 by (simp only: mult_right_mono less_imp_le)
  moreover have "(10 * y + 1 / 2) * T = 10 * yT + T / 2"
    by (simp add: yT_def algebra_simps)
  ultimately have lo': "NT \<le> 10 * yT + T / 2"
    by (simp only: NT_def)
  have "(10 * y + 1 / 2) * T < (of_int N + 1) * T"
    using hi T0 by (simp only: mult_strict_right_mono)
  moreover have "(of_int N + 1) * T = NT + T"
    by (simp add: NT_def algebra_simps)
  moreover note \<open>(10 * y + 1 / 2) * T = 10 * yT + T / 2\<close>
  ultimately have hi': "10 * yT + T / 2 < NT + T"
    by (simp only:)
  have Dr2: "2 * of_int D = 2 * NT - 2000 * C"
    by (simp add: Dr)
  have "2 * of_int D < T + 1"
    using lo' ex(1) dT Dr2 by linarith
  then have "2 * of_int D < (of_int (int t + 1) :: rat)"
    by (simp add: T_def)
  then have "(of_int (2 * D) :: rat) < of_int (int t + 1)"
    by simp
  then have "2 * D < int t + 1"
    by (simp only: of_int_less_iff)
  then have up: "2 * D \<le> int t" by simp
  have "- T - 1 < 2 * of_int D"
    using hi' ex(2) dT Dr2 by linarith
  then have "(of_int (- int t - 1) :: rat) < of_int (2 * D)"
    by (simp add: T_def)
  then have "- int t - 1 < 2 * D"
    by (simp only: of_int_less_iff)
  then have dn: "- int t \<le> 2 * D" by simp
  have "(of_int (2 * D) :: rat) \<le> of_int (int t)" "(of_int (- int t) :: rat) \<le> of_int (2 * D)"
    using up dn by (simp_all only: of_int_le_iff)
  then have D2: "2 * of_int D \<le> T" "- T \<le> 2 * of_int D"
    by (simp_all add: T_def)
  have "of_nat (nat N) / 10 - X = of_int D / (10 * T)"
    using T0 N0 by (simp add: Dr NT_def X_def field_simps)
  moreover have "\<bar>of_int D / (10 * T)\<bar> \<le> 1 / 20"
  proof -
    have "\<bar>of_int D / (10 * T)\<bar> = \<bar>of_int D :: rat\<bar> / (10 * T)"
      using T0 by (simp add: abs_divide)
    also have "\<dots> \<le> (T / 2) / (10 * T)"
      using T0 D2 by (intro divide_right_mono) (simp_all add: abs_le_iff)
    also have "\<dots> = 1 / 20"
      using T0 by simp
    finally show ?thesis .
  qed
  ultimately have "\<bar>of_nat (nat N) / 10 - X\<bar> \<le> 1 / 20"
    by (simp only:)
  then show ?thesis
    by (simp only: N_def X_def C_def T_def)
qed

text \<open>\<open>digits\<close> writes the decimal numeral: reading the digits back gives the number.\<close>

lemma digit_char_value: "d < 10 \<Longrightarrow> of_char (digit_char d) = 48 + d"
proof -
  assume "d < 10"
  then have "d \<in> {0, 1, 2, 3, 4, 5, 6, 7, 8, 9}" by auto
  then show ?thesis
    by (auto simp: digit_char_def)
qed

lemma digits_value:
  "foldl (\<lambda>a ch. 10 * a + (of_char ch - 48)) 0 (digits n) = n"
proof (induction n rule: digits.induct)
  case (1 n)
  show ?case
  proof (cases "n < 10")
    case True
    then show ?thesis
      by (subst digits.simps) (simp add: digit_char_value)
  next
    case False
    then have "foldl (\<lambda>a ch. 10 * a + (of_char ch - 48)) 0 (digits (n div 10)) = n div 10"
      by (rule "1.IH")
    with False show ?thesis
      by (subst digits.simps) (simp add: digit_char_value)
  qed
qed

lemma toFixed1_text:
  "toFixed1 y = digits (nat \<lfloor>10 * y + 1 / 2\<rfloor> div 10) @ ''.'' @ digits (nat \<lfloor>10 * y + 1 / 2\<rfloor> mod 10)"
  by (simp add: toFixed1_def Let_def)

lemma half_score: "toFixed1 (fmul (fdiv 1 2) 100) = ''50.0''"
  by code_simp

lemma tie_score: "toFixed1 (fmul (fdiv 23 80) 100) = ''28.7''"
  by code_simp

lemma two_answered_results:
  "calculateResults two_answered =
     Inr \<lparr>totalQuestions = 2, answeredQuestions = 2, correctAnswers = 1,
          score = ScoreText ''50.0''\<rparr>"
  by (simp add: calculateResults_def two_answered_def one_plus_one_def two_plus_two_def
      fcard_finsert_if half_score)

text \<open>
  C4.  For a question set (of fewer than \<open>2 ^ 32\<close> questions, as every array is) and any
  answer map, the score of \<^verbatim>\<open>calculateResults\<close> is the number 0 when there is no question.
  Otherwise it is the text of a decimal numeral with one digit after the point, whose
  value is within one twentieth of \<open>correct / total * 100\<close>: the percentage rounded to one
  decimal place.  Where the exact percentage lies halfway between two tenths, the double
  product decides: 23 correct of 80 gives 28.7.  For the two example questions with the
  answers 1 and 0 the result is total 2, answered 2, correct 1 and the score 50.0.
\<close>

theorem calculateResults_score:
  assumes "question_set (questions s)" and "length (questions s) < 2 ^ 32"
  shows "(\<exists>r. calculateResults s = Inr r
      \<and> (questions s = [] \<longrightarrow> score r = ScoreNumber 0)
      \<and> (questions s \<noteq> [] \<longrightarrow>
          (\<exists>n. score r = ScoreText (digits (n div 10) @ ''.'' @ digits (n mod 10))
            \<and> \<bar>of_nat n / 10 - of_nat (correctAnswers r) / of_nat (totalQuestions r) * 100\<bar>
                \<le> (1 / 20 :: rat))))
    \<and> calculateResults two_answered =
        Inr \<lparr>totalQuestions = 2, answeredQuestions = 2, correctAnswers = 1,
             score = ScoreText ''50.0''\<rparr>"
proof -
  define c where "c = card {j. correct_at (userAnswers s) (questions s) 0 j}"
  define t where "t = length (questions s)"
  define y where "y = fmul (fdiv (of_nat c) (of_nat t)) 100"
  define n where "n = nat \<lfloor>10 * y + 1 / 2\<rfloor>"
  define r where "r = \<lparr>totalQuestions = t, answeredQuestions = fcard (fmdom (userAnswers s)),
    correctAnswers = c, score = (if t > 0 then ScoreText (toFixed1 y) else ScoreNumber 0)\<rparr>"
  have res: "calculateResults s = Inr r"
    unfolding r_def y_def c_def t_def by (rule calculateResults_question_set [OF assms(1)])
  have empty: "score r = ScoreNumber 0" if "questions s = []"
    using that by (simp add: r_def t_def)
  have full: "\<exists>n. score r = ScoreText (digits (n div 10) @ ''.'' @ digits (n mod 10))
            \<and> \<bar>of_nat n / 10 - of_nat (correctAnswers r) / of_nat (totalQuestions r) * 100\<bar>
                \<le> (1 / 20 :: rat)"
    if "questions s \<noteq> []"
  proof -
    from that have t0: "0 < t" by (simp add: t_def)
    have ct: "c \<le> t"
      unfolding c_def t_def by (rule correct_le_total)
    have t32: "t < 2 ^ 32"
      using assms(2) by (simp add: t_def)
    have y0: "0 \<le> y" and err: "\<bar>y - 100 * of_nat c / of_nat t\<bar> \<le> 1 / 2 ^ 44"
      unfolding y_def using score_double_error [OF ct t0] by simp_all
    have "\<bar>of_nat n / 10 - 100 * of_nat c / of_nat t\<bar> \<le> (1 / 20 :: rat)"
      unfolding n_def by (rule toFixed_nearest [OF y0 err t0 t32])
    moreover have "100 * of_nat c / of_nat t = (of_nat c / of_nat t * 100 :: rat)"
      by simp
    ultimately have near: "\<bar>of_nat n / 10 - of_nat c / of_nat t * 100\<bar> \<le> (1 / 20 :: rat)"
      by (simp only:)
    have "score r = ScoreText (digits (n div 10) @ ''.'' @ digits (n mod 10))"
      using t0 by (simp add: r_def toFixed1_text n_def)
    with near show ?thesis
      by (intro exI [of _ n]) (simp add: r_def)
  qed
  from res empty full two_answered_results show ?thesis
    by blast
qed

text \<open>The example session, and the session with no question.\<close>

theorem calculateResults_score_witness:
  "question_set (questions two_answered)
   \<and> length (questions two_answered) < 2 ^ 32
   \<and> fmlookup (userAnswers two_answered) 0 = Some 1
   \<and> fmlookup (userAnswers two_answered) 1 = Some 0
   \<and> calculateResults two_answered =
        Inr \<lparr>totalQuestions = 2, answeredQuestions = 2, correctAnswers = 1,
             score = ScoreText ''50.0''\<rparr>
   \<and> calculateResults initial =
        Inr \<lparr>totalQuestions = 0, answeredQuestions = 0, correctAnswers = 0,
             score = ScoreNumber 0\<rparr>"
proof -
  have a: "question_set (questions two_answered)"
    by (simp add: two_answered_def question_set_def example_questions)
  have b: "length (questions two_answered) < 2 ^ 32"
    by (simp add: two_answered_def)
  have c: "fmlookup (userAnswers two_answered) 0 = Some 1"
    "fmlookup (userAnswers two_answered) 1 = Some 0"
    by (simp_all add: two_answered_def)
  have i: "question_set (questions initial)" "length (questions initial) < 2 ^ 32"
    "questions initial = []"
    by (simp_all add: initial_def question_set_def)
  from calculateResults_score [OF i(1,2)] i(3)
  obtain r where r: "calculateResults initial = Inr r" "score r = ScoreNumber 0"
    by blast
  have "calculateResults initial = Inr \<lparr>totalQuestions = 0, answeredQuestions = 0,
      correctAnswers = 0, score = score r\<rparr>"
    using r(1) by (auto simp: calculateResults_def initial_def)
  with r(2) have d: "calculateResults initial =
        Inr \<lparr>totalQuestions = 0, answeredQuestions = 0, correctAnswers = 0,
             score = ScoreNumber 0\<rparr>"
    by simp
  from calculateResults_score [OF a b] a b c d show ?thesis
    by blast
qed


end
